theory Spec2Isabelle
  imports Main
begin

section \<open>Characters and character classes of the token regex\<close>

text \<open>
  Strings are lists of 8-bit characters. The control characters the tokenizer
  looks for are named as in the regex literal of \<open>getAnsiHtml\<close>.
\<close>

abbreviation ESC :: char where "ESC \<equiv> CHR 0x1B"
abbreviation BEL :: char where "BEL \<equiv> CHR 0x07"
abbreviation BS :: char where "BS \<equiv> CHR 0x08"
abbreviation LF :: char where "LF \<equiv> CHR 0x0A"
abbreviation CR :: char where "CR \<equiv> CHR 0x0D"

text \<open>The class \<open>[0-9]\<close> (also \<open>\d\<close>).\<close>

definition is_digit :: "char \<Rightarrow> bool" where
  "is_digit c = (c \<in> set ''0123456789'')"

text \<open>The class \<open>[0-9;?]\<close>.\<close>

definition is_param :: "char \<Rightarrow> bool" where
  "is_param c = (is_digit c \<or> c = CHR '';'' \<or> c = CHR ''?'')"

text \<open>The class \<open>[a-zA-Z]\<close>.\<close>

definition is_letter :: "char \<Rightarrow> bool" where
  "is_letter c = (c \<in> set ''abcdefghijklmnopqrstuvwxyzABCDEFGHIJKLMNOPQRSTUVWXYZ'')"

text \<open>The class \<open>[\r\n\b]\<close>.\<close>

definition is_control :: "char \<Rightarrow> bool" where
  "is_control c = (c = CR \<or> c = LF \<or> c = BS)"

text \<open>The class \<open>[^\x1b\r\n\b]\<close>.\<close>

definition is_plain :: "char \<Rightarrow> bool" where
  "is_plain c = (c \<noteq> ESC \<and> c \<noteq> CR \<and> c \<noteq> LF \<and> c \<noteq> BS)"

text \<open>
  The regex dot without the \<open>s\<close> flag: any character but a line terminator. Of
  the line terminators only \<open>\n\<close> and \<open>\r\<close> are 8-bit characters.
\<close>

definition is_dot :: "char \<Rightarrow> bool" where
  "is_dot c = (c \<noteq> LF \<and> c \<noteq> CR)"

section \<open>Escape tokenizer\<close>

text \<open>One constructor per capture group of \<open>tokenRegex\<close>, carrying the matched text.\<close>

datatype token =
    AnsiCode string
  | OscSequence string
  | KeypadMode string
  | ControlChar char
  | TextPart string

text \<open>
  Group 1, \<open>\x1b\[[0-9;?]*[a-zA-Z]\<close>, tried at the head of the string: the
  matched text and the rest. The parameter class and the letter class are
  disjoint, so the greedy star has nothing to give back.
\<close>

definition match_csi :: "string \<Rightarrow> (string \<times> string) option" where
  "match_csi s =
     (case s of
        e # b # r \<Rightarrow>
          if e = ESC \<and> b = CHR ''[''
          then (case dropWhile is_param r of
                  l # rest \<Rightarrow>
                    if is_letter l
                    then Some (e # b # takeWhile is_param r @ [l], rest)
                    else None
                | [] \<Rightarrow> None)
          else None
      | _ \<Rightarrow> None)"

text \<open>
  The tail \<open>.*?(?:\x07|\x1b\\)\<close> of group 2: the lazy star stops at the first
  position where a terminator stands, and fails on a line terminator or at the
  end of the string.
\<close>

fun osc_tail :: "string \<Rightarrow> (string \<times> string) option" where
  "osc_tail [] = None"
| "osc_tail (c # cs) =
     (if c = BEL then Some ([c], cs)
      else if c = ESC \<and> cs \<noteq> [] \<and> hd cs = CHR 0x5C then Some ([c, hd cs], tl cs)
      else if is_dot c
      then (case osc_tail cs of
              Some (m, rest) \<Rightarrow> Some (c # m, rest)
            | None \<Rightarrow> None)
      else None)"

text \<open>Group 2, \<open>\x1b\].*?(?:\x07|\x1b\\)\<close>.\<close>

definition match_osc :: "string \<Rightarrow> (string \<times> string) option" where
  "match_osc s =
     (case s of
        e # b # r \<Rightarrow>
          if e = ESC \<and> b = CHR '']''
          then (case osc_tail r of
                  Some (m, rest) \<Rightarrow> Some (e # b # m, rest)
                | None \<Rightarrow> None)
          else None
      | _ \<Rightarrow> None)"

text \<open>Group 3, \<open>\x1b[=>]\<close>.\<close>

definition match_keypad :: "string \<Rightarrow> (string \<times> string) option" where
  "match_keypad s =
     (case s of
        e # k # rest \<Rightarrow>
          if e = ESC \<and> (k = CHR ''='' \<or> k = CHR ''>'') then Some ([e, k], rest) else None
      | _ \<Rightarrow> None)"

text \<open>
  One attempt of the whole alternation at the head of the string, the groups in
  the order of the regex.
\<close>

definition match_here :: "string \<Rightarrow> (token \<times> string) option" where
  "match_here s =
     (case match_csi s of
        Some (m, rest) \<Rightarrow> Some (AnsiCode m, rest)
      | None \<Rightarrow>
     (case match_osc s of
        Some (m, rest) \<Rightarrow> Some (OscSequence m, rest)
      | None \<Rightarrow>
     (case match_keypad s of
        Some (m, rest) \<Rightarrow> Some (KeypadMode m, rest)
      | None \<Rightarrow>
     (case s of
        [] \<Rightarrow> None
      | c # cs \<Rightarrow>
          if is_control c then Some (ControlChar c, cs)
          else if is_plain c
          then Some (TextPart (takeWhile is_plain s), dropWhile is_plain s)
          else None))))"

lemma osc_tail_shorter: "osc_tail s = Some (m, rest) \<Longrightarrow> length rest < length s"
proof (induction s arbitrary: m rest)
  case Nil
  then show ?case by simp
next
  case (Cons c cs)
  then show ?case
    by (cases cs) (auto split: if_splits option.splits)
qed

lemma match_csi_shorter: "match_csi s = Some (m, rest) \<Longrightarrow> length rest < length s"
proof -
  assume a: "match_csi s = Some (m, rest)"
  then obtain e b r l where s: "s = e # b # r" and d: "dropWhile is_param r = l # rest"
    by (auto simp: match_csi_def split: list.splits if_splits)
  have "length (dropWhile is_param r) \<le> length r"
    by (rule length_dropWhile_le)
  with s d show ?thesis by simp
qed

lemma match_osc_shorter: "match_osc s = Some (m, rest) \<Longrightarrow> length rest < length s"
  by (auto simp: match_osc_def split: list.splits if_splits option.splits
      dest!: osc_tail_shorter)

lemma match_keypad_shorter: "match_keypad s = Some (m, rest) \<Longrightarrow> length rest < length s"
  by (auto simp: match_keypad_def split: list.splits if_splits)

lemma match_here_shorter:
  assumes "match_here s = Some (t, rest)"
  shows "length rest < length s"
proof (cases "match_csi s")
  case (Some p)
  with assms show ?thesis
    by (cases p) (auto simp: match_here_def dest: match_csi_shorter)
next
  case csi: None
  show ?thesis
  proof (cases "match_osc s")
    case (Some p)
    with assms csi show ?thesis
      by (cases p) (auto simp: match_here_def dest: match_osc_shorter)
  next
    case osc: None
    show ?thesis
    proof (cases "match_keypad s")
      case (Some p)
      with assms csi osc show ?thesis
        by (cases p) (auto simp: match_here_def dest: match_keypad_shorter)
    next
      case kp: None
      from assms csi osc kp obtain c cs where s: "s = c # cs"
        and d: "rest = cs \<or> (is_plain c \<and> rest = dropWhile is_plain s)"
        by (auto simp: match_here_def split: list.splits if_splits)
      from d show ?thesis
      proof
        assume "rest = cs"
        with s show ?thesis by simp
      next
        assume p: "is_plain c \<and> rest = dropWhile is_plain s"
        have "length (dropWhile is_plain cs) \<le> length cs"
          by (rule length_dropWhile_le)
        with p s show ?thesis by simp
      qed
    qed
  qed
qed

text \<open>
  The loop \<open>while ((match = tokenRegex.exec(text)) !== null)\<close> with the \<open>g\<close> flag:
  \<open>exec\<close> finds the leftmost position at or after \<open>lastIndex\<close> where the
  alternation matches, so a character where nothing matches (an escape that
  opens no recognised sequence) is stepped over.
\<close>

function tokenize :: "string \<Rightarrow> token list" where
  "tokenize [] = []"
| "tokenize (c # cs) =
     (case match_here (c # cs) of
        None \<Rightarrow> tokenize cs
      | Some (t, rest) \<Rightarrow> t # tokenize rest)"
  by pat_completeness auto
termination
  by (relation "measure length") (auto dest: match_here_shorter)


section \<open>Screen buffer model\<close>

text \<open>
  A cell of the grid, \<open>{ char: string, style: string }\<close>. The \<open>for ... of\<close> loop
  over a text run hands out one character at a time, so a cell holds one.
\<close>

record cell =
  char :: char
  style :: string

text \<open>The cell \<open>{ char: ' ', style: '' }\<close> used for padding and for erase-to-cursor.\<close>

definition blank :: cell where
  "blank = \<lparr>char = CHR '' '', style = []\<rparr>"

text \<open>
  The locals of \<open>getAnsiHtml\<close> that the loop mutates. The cursor is a JavaScript
  number that the code decrements and clamps, so it is an integer here.
\<close>

record state =
  linesBuffer :: "cell list list"
  cursorX :: int
  cursorY :: int
  currentStyle :: string

text \<open>\<open>linesBuffer = [[]]\<close>, cursor at the origin, no style.\<close>

definition init :: state where
  "init = \<lparr>linesBuffer = [[]], cursorX = 0, cursorY = 0, currentStyle = []\<rparr>"

text \<open>
  Where the source would leave the dense grid, the model stops with an error:
  \<open>TypeError\<close> is what JavaScript throws when a method or \<open>length\<close> of an
  \<open>undefined\<close> row is used; \<open>SparseWrite\<close> stands for an assignment
  \<open>linesBuffer[y] = []\<close> at an index that is negative or beyond the end of the
  array, which JavaScript accepts by adding a property or leaving holes.
\<close>

datatype error = TypeError | SparseWrite

text \<open>The read \<open>linesBuffer[y]\<close>: \<open>None\<close> is \<open>undefined\<close>.\<close>

definition row_at :: "cell list list \<Rightarrow> int \<Rightarrow> cell list option" where
  "row_at rows y = (if 0 \<le> y \<and> y < int (length rows) then Some (rows ! nat y) else None)"

text \<open>The assignment \<open>linesBuffer[y] = row\<close>.\<close>

definition set_row :: "cell list list \<Rightarrow> int \<Rightarrow> cell list \<Rightarrow> error + cell list list" where
  "set_row rows y row =
     (if 0 \<le> y \<and> y < int (length rows) then Inr (rows[nat y := row])
      else if y = int (length rows) then Inr (rows @ [row])
      else Inl SparseWrite)"

text \<open>
  \<open>ansiCode.match(/\d+/)\<close>: the leftmost maximal run of digits, \<open>None\<close> when the
  sequence has no digit.
\<close>

definition first_digits :: "string \<Rightarrow> string option" where
  "first_digits s =
     (let ds = takeWhile is_digit (dropWhile (\<lambda>c. \<not> is_digit c) s)
      in if ds = [] then None else Some ds)"

text \<open>
  \<open>parseInt\<close> of a run of decimal digits. The result is the exact number; the
  JavaScript number agrees with it below \<open>2^53\<close>.
\<close>

definition digit_val :: "char \<Rightarrow> int" where
  "digit_val c = int (of_char c) - 48"

definition parseInt :: "string \<Rightarrow> int" where
  "parseInt ds = foldl (\<lambda>n c. 10 * n + digit_val c) 0 ds"

text \<open>\<open>param ? parseInt(param[0]) : dflt\<close>.\<close>

definition param_or :: "int \<Rightarrow> string \<Rightarrow> int" where
  "param_or dflt ansiCode =
     (case first_digits ansiCode of None \<Rightarrow> dflt | Some ds \<Rightarrow> parseInt ds)"

text \<open>
  \<open>Array.prototype.splice(start, deleteCount)\<close> as far as the array it leaves
  is concerned: a negative start counts from the end, and both arguments are
  clamped to the array.
\<close>

definition splice_start :: "'a list \<Rightarrow> int \<Rightarrow> nat" where
  "splice_start xs start =
     (if start < 0 then nat (max (int (length xs) + start) 0)
      else nat (min start (int (length xs))))"

definition splice2 :: "'a list \<Rightarrow> int \<Rightarrow> int \<Rightarrow> 'a list" where
  "splice2 xs start deleteCount =
     (let a = splice_start xs start;
          d = nat (min (max deleteCount 0) (int (length xs) - int a))
      in take a xs @ drop (a + d) xs)"

text \<open>\<open>splice(start)\<close> with one argument deletes to the end.\<close>

definition splice1 :: "'a list \<Rightarrow> int \<Rightarrow> 'a list" where
  "splice1 xs start = take (splice_start xs start) xs"

text \<open>
  Erase-to-cursor: \<open>for (let i = 0; i < cursorX; i++) if (line[i]) line[i] = blank\<close>.
  A cell is an object, so \<open>line[i]\<close> is falsy exactly beyond the end of the row.
\<close>

definition blank_before :: "cell list \<Rightarrow> int \<Rightarrow> cell list" where
  "blank_before line x = map (\<lambda>_. blank) (take (nat x) line) @ drop (nat x) line"

text \<open>
  The body of \<open>for (const char of textPart)\<close> on the row and the cursor column:
  pad with blanks up to the cursor, write the cell, advance. An assignment at a
  negative index adds a property and leaves the elements of the array alone.
\<close>

definition write_char :: "string \<Rightarrow> cell list \<times> int \<Rightarrow> char \<Rightarrow> cell list \<times> int" where
  "write_char sty lx c =
     (let line = fst lx; x = snd lx;
          padded = line @ replicate (nat (x - int (length line))) blank;
          cl = \<lparr>char = c, style = sty\<rparr>
      in (if x < 0 then padded
          else if nat x < length padded then padded[nat x := cl]
          else padded @ [cl],
          x + 1))"

text \<open>The reset sequence \<open>'\x1b[0m'\<close>.\<close>

definition reset :: string where
  "reset = [ESC, CHR ''['', CHR ''0'', CHR ''m'']"

text \<open>\<open>ansiCode.endsWith(l)\<close> for a one-character \<open>l\<close>.\<close>

definition endsWith :: "string \<Rightarrow> char \<Rightarrow> bool" where
  "endsWith s l = (s \<noteq> [] \<and> last s = l)"

section \<open>Buffer interpreter\<close>

text \<open>Erase in line: the branch \<open>ansiCode.endsWith('K')\<close> once \<open>mode\<close> is known.\<close>

definition erase_in_line :: "state \<Rightarrow> int \<Rightarrow> error + state" where
  "erase_in_line s mode =
     (let line = row_at (linesBuffer s) (cursorY s)
      in if mode = 0 then
           (case line of
              None \<Rightarrow> Inl TypeError
            | Some l \<Rightarrow>
                Inr (s\<lparr>linesBuffer := (linesBuffer s)[nat (cursorY s) := splice1 l (cursorX s)]\<rparr>))
         else if mode = 1 then
           (if 0 < cursorX s then
              (case line of
                 None \<Rightarrow> Inl TypeError
               | Some l \<Rightarrow>
                   Inr (s\<lparr>linesBuffer :=
                           (linesBuffer s)[nat (cursorY s) := blank_before l (cursorX s)]\<rparr>))
            else Inr s)
         else if mode = 2 then
           (case set_row (linesBuffer s) (cursorY s) [] of
              Inl e \<Rightarrow> Inl e
            | Inr rows \<Rightarrow> Inr (s\<lparr>linesBuffer := rows\<rparr>))
         else Inr s)"

text \<open>Erase in display: the branch \<open>ansiCode.endsWith('J')\<close> once \<open>mode\<close> is known.\<close>

definition erase_in_display :: "state \<Rightarrow> int \<Rightarrow> error + state" where
  "erase_in_display s mode =
     (if mode = 0 then
        (case row_at (linesBuffer s) (cursorY s) of
           None \<Rightarrow> Inl TypeError
         | Some l \<Rightarrow>
             Inr (s\<lparr>linesBuffer :=
                     take (nat (cursorY s)) (linesBuffer s) @ [splice1 l (cursorX s)] @
                     map (\<lambda>_. []) (drop (nat (cursorY s) + 1) (linesBuffer s))\<rparr>))
      else if mode = 2 then
        Inr (s\<lparr>linesBuffer := [[]], cursorX := 0, cursorY := 0\<rparr>)
      else Inr s)"

text \<open>Delete character: the branch \<open>ansiCode.endsWith('P')\<close> once \<open>count\<close> is known.\<close>

definition delete_chars :: "state \<Rightarrow> int \<Rightarrow> error + state" where
  "delete_chars s count =
     (case row_at (linesBuffer s) (cursorY s) of
        None \<Rightarrow> Inl TypeError
      | Some l \<Rightarrow>
          Inr (s\<lparr>linesBuffer :=
                  (linesBuffer s)[nat (cursorY s) := splice2 l (cursorX s) count]\<rparr>))"

text \<open>The last \<open>else\<close> branch, cursor movement, once \<open>count\<close> is known.\<close>

definition move_cursor :: "state \<Rightarrow> string \<Rightarrow> int \<Rightarrow> error + state" where
  "move_cursor s ansiCode count =
     (if endsWith ansiCode (CHR ''A'') then
        Inr (s\<lparr>cursorY := max 0 (cursorY s - count)\<rparr>)
      else if endsWith ansiCode (CHR ''B'') then
        (let y = cursorY s + count
         in Inr (s\<lparr>cursorY := y,
                   linesBuffer := linesBuffer s @
                     replicate (nat (y + 1 - int (length (linesBuffer s)))) []\<rparr>))
      else if endsWith ansiCode (CHR ''D'') then
        Inr (s\<lparr>cursorX := max 0 (cursorX s - count)\<rparr>)
      else if endsWith ansiCode (CHR ''C'') then
        Inr (s\<lparr>cursorX := cursorX s + count\<rparr>)
      else Inr s)"

text \<open>The branch \<open>else if (ansiCode)\<close> of the loop body.\<close>

definition step_ansi :: "state \<Rightarrow> string \<Rightarrow> error + state" where
  "step_ansi s ansiCode =
     (if endsWith ansiCode (CHR ''m'') then
        (if ansiCode = reset
         then Inr (s\<lparr>currentStyle := []\<rparr>)
         else Inr (s\<lparr>currentStyle := currentStyle s @ ansiCode\<rparr>))
      else if endsWith ansiCode (CHR ''K'') then erase_in_line s (param_or 0 ansiCode)
      else if endsWith ansiCode (CHR ''J'') then erase_in_display s (param_or 0 ansiCode)
      else if endsWith ansiCode (CHR ''P'') then delete_chars s (param_or 1 ansiCode)
      else move_cursor s ansiCode (param_or 1 ansiCode))"

text \<open>
  The body of the loop for one match. Every capture group that matched is a
  non-empty string, so the truthiness tests of the source select the group.
\<close>

definition step :: "state \<Rightarrow> token \<Rightarrow> error + state" where
  "step s t =
     (case t of
        OscSequence _ \<Rightarrow> Inr s
      | KeypadMode _ \<Rightarrow> Inr s
      | ControlChar c \<Rightarrow>
          if c = LF then
            (let y = cursorY s + 1
             in case row_at (linesBuffer s) y of
                  Some _ \<Rightarrow> Inr (s\<lparr>cursorY := y, cursorX := 0\<rparr>)
                | None \<Rightarrow>
                    (case set_row (linesBuffer s) y [] of
                       Inl e \<Rightarrow> Inl e
                     | Inr rows \<Rightarrow> Inr (s\<lparr>cursorY := y, cursorX := 0, linesBuffer := rows\<rparr>)))
          else if c = CR then Inr (s\<lparr>cursorX := 0\<rparr>)
          else if c = BS then Inr (s\<lparr>cursorX := max 0 (cursorX s - 1)\<rparr>)
          else Inr s
      | AnsiCode ansiCode \<Rightarrow> step_ansi s ansiCode
      | TextPart textPart \<Rightarrow>
          if textPart = [] then Inr s
          else
            (case row_at (linesBuffer s) (cursorY s) of
               None \<Rightarrow> Inl TypeError
             | Some l \<Rightarrow>
                 (let lx = foldl (write_char (currentStyle s)) (l, cursorX s) textPart
                  in Inr (s\<lparr>linesBuffer := (linesBuffer s)[nat (cursorY s) := fst lx],
                            cursorX := snd lx\<rparr>))))"

text \<open>The loop over the matches; an exception ends it.\<close>

fun interp :: "state \<Rightarrow> token list \<Rightarrow> error + state" where
  "interp s [] = Inr s"
| "interp s (t # ts) = (case step s t of Inl e \<Rightarrow> Inl e | Inr s' \<Rightarrow> interp s' ts)"

text \<open>The state when the loop of \<open>getAnsiHtml\<close> ends on the text of the document.\<close>

definition run :: "string \<Rightarrow> error + state" where
  "run text = interp init (tokenize text)"


section \<open>Style-run renderer\<close>

text \<open>
  \<open>AnsiUp\<close> is a library object with internal state; \<open>ansi_to_html\<close> is taken
  as a parameter that maps the state of the object and the argument to the
  result and the new state, and \<open>new AnsiUp()\<close> as the state it starts in.
\<close>

type_synonym 'u ansi_to_html = "'u \<Rightarrow> string \<Rightarrow> string \<times> 'u"

text \<open>One string replacement with a one-character pattern and the \<open>g\<close> flag.\<close>

definition replace_char :: "char \<Rightarrow> string \<Rightarrow> string \<Rightarrow> string" where
  "replace_char c by s = concat (map (\<lambda>d. if d = c then by else [d]) s)"

text \<open>
  \<open>currentSpanText.replace(/&/g, '&amp;').replace(/</g, '&lt;').replace(/>/g, '&gt;')\<close>.
\<close>

definition escape_html :: "string \<Rightarrow> string" where
  "escape_html s =
     replace_char (CHR ''>'') ''&gt;''
       (replace_char (CHR ''<'') ''&lt;''
          (replace_char (CHR ''&'') ''&amp;'' s))"

text \<open>\<open>currentSpanAnsi.replace(/\x1b/g, '\\x1b')\<close>: every escape spelled out as four characters.\<close>

definition escape_esc :: "string \<Rightarrow> string" where
  "escape_esc s = replace_char ESC [CHR 0x5C, CHR ''x'', CHR ''1'', CHR ''b''] s"

text \<open>
  \<open>styledSnippet.match(/style="([^"]+)"/)\<close>: at the leftmost position where
  \<open>style="\<close> is followed by a non-empty run without a quote and then a quote, the
  run; \<open>None\<close> when there is no such position.
\<close>

definition style_here :: "string \<Rightarrow> string option" where
  "style_here s =
     (if take 7 s = ''style='' @ [CHR 0x22]
      then (let v = takeWhile (\<lambda>c. c \<noteq> CHR 0x22) (drop 7 s);
                r = dropWhile (\<lambda>c. c \<noteq> CHR 0x22) (drop 7 s)
            in if v \<noteq> [] \<and> r \<noteq> [] then Some v else None)
      else None)"

fun style_match :: "string \<Rightarrow> string option" where
  "style_match [] = None"
| "style_match (c # cs) =
     (case style_here (c # cs) of Some v \<Rightarrow> Some v | None \<Rightarrow> style_match cs)"

text \<open>
  One \<open><span>\<close> appended to \<open>lineHtml\<close>, kept as its three parts: the run's
  text, the accumulated escape string it carries and the visual style
  extracted from the converter's output.
\<close>

record span =
  spanText :: string
  spanAnsi :: string
  styleAttr :: string

text \<open>The markup of one span, as the template literal of \<open>flushSpan\<close> builds it.\<close>

definition span_html :: "span \<Rightarrow> string" where
  "span_html sp =
     ''<span'' @
     (if styleAttr sp \<noteq> [] then '' style='' @ [CHR 0x22] @ styleAttr sp @ [CHR 0x22] else []) @
     (if spanAnsi sp \<noteq> [] then '' data-ansi='' @ [CHR 0x22] @ escape_esc (spanAnsi sp) @ [CHR 0x22] else []) @
     ''>'' @ escape_html (spanText sp) @ ''</span>''"

text \<open>
  The variables of the arrow function that renders one line, and the converter
  object the closure shares with the other lines.
\<close>

record 'u line_state =
  lineHtml :: "span list"
  currentSpanAnsi :: string
  currentSpanText :: string
  ansiUp :: 'u

definition flushSpan :: "'u ansi_to_html \<Rightarrow> 'u line_state \<Rightarrow> 'u line_state" where
  "flushSpan a st =
     (if currentSpanText st \<noteq> [] then
        (let r = (if currentSpanAnsi st \<noteq> [] then
                    (let out = a (ansiUp st) (reset @ currentSpanAnsi st @ ''X'' @ reset)
                     in (case style_match (fst out) of Some v \<Rightarrow> v | None \<Rightarrow> [], snd out))
                  else ([], ansiUp st))
         in st\<lparr>lineHtml := lineHtml st @
                   [\<lparr>spanText = currentSpanText st, spanAnsi = currentSpanAnsi st,
                     styleAttr = fst r\<rparr>],
                 currentSpanText := [],
                 ansiUp := snd r\<rparr>)
      else st)"

text \<open>The body of \<open>for (const cell of line)\<close>.\<close>

definition add_cell :: "'u ansi_to_html \<Rightarrow> 'u line_state \<Rightarrow> cell \<Rightarrow> 'u line_state" where
  "add_cell a st cl =
     (let st' = (if style cl \<noteq> currentSpanAnsi st
                 then (flushSpan a st)\<lparr>currentSpanAnsi := style cl\<rparr>
                 else st)
      in st'\<lparr>currentSpanText := currentSpanText st' @ [char cl]\<rparr>)"

text \<open>The spans of one line and the converter afterwards.\<close>

definition render_line :: "'u ansi_to_html \<Rightarrow> 'u \<Rightarrow> cell list \<Rightarrow> span list \<times> 'u" where
  "render_line a u line =
     (let st = flushSpan a
                 (foldl (add_cell a)
                    \<lparr>lineHtml = [], currentSpanAnsi = [], currentSpanText = [], ansiUp = u\<rparr> line)
      in (lineHtml st, ansiUp st))"

text \<open>\<open>linesBuffer.map(line => ...)\<close> before the markup is put together: the spans of every line.\<close>

fun render_lines :: "'u ansi_to_html \<Rightarrow> 'u \<Rightarrow> cell list list \<Rightarrow> span list list" where
  "render_lines a u [] = []"
| "render_lines a u (line # rest) =
     (let r = render_line a u line in fst r # render_lines a (snd r) rest)"

text \<open>\<open>`<div class="line">${lineHtml || '<br>'}</div>`\<close>.\<close>

definition line_html :: "span list \<Rightarrow> string" where
  "line_html spans =
     ''<div class='' @ [CHR 0x22] @ ''line'' @ [CHR 0x22] @ ''>'' @
     (let h = concat (map span_html spans) in if h \<noteq> [] then h else ''<br>'') @
     ''</div>''"

text \<open>
  \<open>getAnsiHtml\<close> on the text of the document: the markup of the lines joined
  with the empty string. An exception in the loop leaves no result.
\<close>

definition getAnsiHtml :: "'u ansi_to_html \<Rightarrow> 'u \<Rightarrow> string \<Rightarrow> error + string" where
  "getAnsiHtml a u0 raw =
     (case run raw of
        Inl e \<Rightarrow> Inl e
      | Inr s \<Rightarrow> Inr (concat (map line_html (render_lines a u0 (linesBuffer s)))))"

text \<open>
  The calls of \<open>getAnsiHtml\<close> that \<open>updateWebview\<close> makes one after the other as
  the document changes. Every call creates its converter with \<open>new AnsiUp()\<close>
  and starts from a fresh grid, cursor and style; nothing of a call outlives it.
  \<open>grid_of\<close> is the grid a text is interpreted to.
\<close>

fun render_all :: "'u ansi_to_html \<Rightarrow> 'u \<Rightarrow> string list \<Rightarrow> (error + string) list" where
  "render_all a u0 [] = []"
| "render_all a u0 (document # later) = getAnsiHtml a u0 document # render_all a u0 later"

definition grid_of :: "string \<Rightarrow> cell list list option" where
  "grid_of raw = (case run raw of Inl e \<Rightarrow> None | Inr s \<Rightarrow> Some (linesBuffer s))"

section \<open>Escape reconstructor\<close>

text \<open>
  The document tree as the script of the webview reads it. An element has its
  tag name, whether its class list holds \<open>line\<close>, its \<open>data-ansi\<close> attribute
  (\<open>None\<close> for \<open>null\<close>), its \<open>innerText\<close> and its child nodes; a text node has its
  \<open>textContent\<close>; every other node type is \<open>OtherNode\<close>.
\<close>

datatype node =
    Element string bool "string option" string "node list"
  | TextNode string
  | OtherNode

text \<open>\<open>dataAnsi.replace(/\\x1b/g, '\x1b')\<close>: the four characters \<open>\x1b\<close> back to an escape.\<close>

fun unescape_esc :: "string \<Rightarrow> string" where
  "unescape_esc (a # b # c # d # r) =
     (if a = CHR 0x5C \<and> b = CHR ''x'' \<and> c = CHR ''1'' \<and> d = CHR ''b''
      then ESC # unescape_esc r
      else a # unescape_esc (b # c # d # r))"
| "unescape_esc s = s"

text \<open>What one child node adds to \<open>text\<close> in \<open>processNode\<close>, and \<open>processNode\<close> itself.\<close>

fun processNode :: "node \<Rightarrow> string" where
  "processNode (Element tg cls da it children) =
     concat (map (\<lambda>child.
       (case child of
          Element ctg ccls dataAnsi innerText cchildren \<Rightarrow>
            if ctg = ''SPAN'' then
              (if dataAnsi \<noteq> None \<and> dataAnsi \<noteq> Some [] then unescape_esc (the dataAnsi) else []) @
              innerText @
              (if dataAnsi \<noteq> None \<and> dataAnsi \<noteq> Some [] then reset else [])
            else if ctg = ''BR'' then []
            else processNode child
        | TextNode textContent \<Rightarrow> textContent
        | OtherNode \<Rightarrow> [])) children)"
| "processNode (TextNode t) = []"
| "processNode OtherNode = []"

text \<open>The selector \<open>.line, div\<close> on one node.\<close>

fun matches_line :: "node \<Rightarrow> bool" where
  "matches_line (Element tg cls da it children) = (cls \<or> tg = ''DIV'')"
| "matches_line _ = False"

fun childNodes :: "node \<Rightarrow> node list" where
  "childNodes (Element tg cls da it children) = children"
| "childNodes _ = []"

text \<open>All nodes below a node, in document order.\<close>

fun descendants :: "node \<Rightarrow> node list" where
  "descendants (Element tg cls da it children) =
     concat (map (\<lambda>child. child # descendants child) children)"
| "descendants _ = []"

text \<open>\<open>Array.prototype.join\<close>.\<close>

fun join :: "string \<Rightarrow> string list \<Rightarrow> string" where
  "join sep [] = []"
| "join sep [x] = x"
| "join sep (x # y # ys) = x @ sep @ join sep (y # ys)"

text \<open>
  \<open>reconstructAnsi\<close> on the content element. \<open>querySelectorAll\<close> finds the
  matching elements anywhere below it; those whose parent is the content
  element are its matching children.
\<close>

definition reconstructAnsi :: "node \<Rightarrow> string" where
  "reconstructAnsi content =
     (let lines = filter matches_line (descendants content);
          processedLines =
            (if lines = [] then [processNode content]
             else map processNode (filter matches_line (childNodes content)))
      in join [LF] processedLines)"

section \<open>The document tree of the rendered markup\<close>




text \<open>
  An edited structured line as the reconstructor meets it: a run is a \<open>span\<close>
  with its \<open>data-ansi\<close> attribute, if it has one, and its text; a line is an
  element of class \<open>line\<close> whose children are runs.
\<close>

definition run_node :: "string option \<times> string \<Rightarrow> node" where
  "run_node r = Element ''SPAN'' False (fst r) (snd r) [TextNode (snd r)]"

definition runs_node :: "(string option \<times> string) list \<Rightarrow> node" where
  "runs_node runs = Element ''DIV'' True None (concat (map snd runs)) (map run_node runs)"

section \<open>Statements of the specification\<close>

text \<open>
  The current style as the specification describes it, read off the token
  stream alone: the reset sequence empties it, any other sequence ending in
  \<open>m\<close> is appended to it, every other token leaves it as it is.
\<close>

fun spec_style_after :: "string \<Rightarrow> token list \<Rightarrow> string" where
  "spec_style_after sty [] = sty"
| "spec_style_after sty (AnsiCode c # ts) =
     spec_style_after
       (if endsWith c (CHR ''m'') then (if c = reset then [] else sty @ c) else sty) ts"
| "spec_style_after sty (t # ts) = spec_style_after sty ts"

text \<open>
  What a run contributes to the reconstructed text: with a non-empty tag, the
  tag with every spelled-out \<open>\x1b\<close> turned back into an escape, the text, and
  one reset; otherwise the text alone.
\<close>

definition spec_run_text :: "string option \<times> string \<Rightarrow> string" where
  "spec_run_text r =
     (case fst r of
        None \<Rightarrow> snd r
      | Some t \<Rightarrow> if t = [] then snd r else unescape_esc t @ snd r @ reset)"

section \<open>Invariants and auxiliary notions\<close>

text \<open>The cursor is not negative and its row is a row of the grid.\<close>

definition cursor_ok :: "state \<Rightarrow> bool" where
  "cursor_ok s =
     (0 \<le> cursorX s \<and> 0 \<le> cursorY s \<and> cursorY s < int (length (linesBuffer s)))"

text \<open>
  While a line is rendered: the spans appended so far differ pairwise where they
  are adjacent, and once there is a span the text collected for the next one is
  not empty and its style is not that of the last span.
\<close>

definition runs_ok :: "'u line_state \<Rightarrow> bool" where
  "runs_ok st =
     (distinct_adj (map spanAnsi (lineHtml st)) \<and>
      (lineHtml st = [] \<or>
         (currentSpanText st \<noteq> [] \<and> spanAnsi (last (lineHtml st)) \<noteq> currentSpanAnsi st)))"















section \<open>The cursor stays inside the grid\<close>

lemma parseInt_acc_nonneg:
  "0 \<le> n \<Longrightarrow> list_all is_digit ds \<Longrightarrow> 0 \<le> foldl (\<lambda>n c. 10 * n + digit_val c) n ds"
proof (induction ds arbitrary: n)
  case Nil
  then show ?case by simp
next
  case (Cons d ds)
  from Cons.prems have "0 \<le> digit_val d"
    by (auto simp: is_digit_def digit_val_def)
  with Cons.prems have "0 \<le> 10 * n + digit_val d" by simp
  with Cons show ?case by simp
qed

lemma first_digits_digits: "first_digits s = Some ds \<Longrightarrow> list_all is_digit ds"
  by (auto simp: first_digits_def Let_def list_all_iff split: if_splits dest: set_takeWhileD)

lemma param_or_nonneg: "0 \<le> d \<Longrightarrow> 0 \<le> param_or d a"
  by (auto simp: param_or_def parseInt_def split: option.splits
      intro!: parseInt_acc_nonneg dest: first_digits_digits)

lemma row_at_ok:
  "cursor_ok s \<Longrightarrow> row_at (linesBuffer s) (cursorY s) = Some (linesBuffer s ! nat (cursorY s))"
  by (simp add: cursor_ok_def row_at_def)

lemma write_char_snd: "snd (write_char sty lx c) = snd lx + 1"
  by (simp add: write_char_def Let_def)

lemma foldl_write_char_snd: "snd (foldl (write_char sty) lx cs) = snd lx + int (length cs)"
  by (induction cs arbitrary: lx) (simp_all add: write_char_snd)

lemma erase_in_line_ok:
  assumes "cursor_ok s"
  shows "\<exists>s'. erase_in_line s mode = Inr s' \<and> cursor_ok s'"
  using assms row_at_ok [OF assms]
  by (auto simp: erase_in_line_def set_row_def cursor_ok_def Let_def)

lemma erase_in_display_ok:
  assumes "cursor_ok s"
  shows "\<exists>s'. erase_in_display s mode = Inr s' \<and> cursor_ok s'"
  using assms row_at_ok [OF assms]
  by (auto simp: erase_in_display_def cursor_ok_def)

lemma delete_chars_ok:
  assumes "cursor_ok s"
  shows "\<exists>s'. delete_chars s count = Inr s' \<and> cursor_ok s'"
  using assms row_at_ok [OF assms]
  by (simp add: delete_chars_def cursor_ok_def)

lemma move_cursor_ok:
  assumes "cursor_ok s" and "0 \<le> count"
  shows "\<exists>s'. move_cursor s a count = Inr s' \<and> cursor_ok s'"
  using assms
  by (auto simp: move_cursor_def cursor_ok_def Let_def)

lemma step_ansi_ok:
  assumes "cursor_ok s"
  shows "\<exists>s'. step_ansi s a = Inr s' \<and> cursor_ok s'"
proof (cases "endsWith a (CHR ''m'')")
  case True
  have "cursor_ok (s\<lparr>currentStyle := sty\<rparr>)" for sty
    using assms by (simp add: cursor_ok_def)
  with True show ?thesis
    by (simp add: step_ansi_def)
next
  case False
  have "\<exists>s'. move_cursor s a (param_or 1 a) = Inr s' \<and> cursor_ok s'"
    by (rule move_cursor_ok [OF assms]) (simp add: param_or_nonneg)
  with False show ?thesis
    using erase_in_line_ok [OF assms] erase_in_display_ok [OF assms] delete_chars_ok [OF assms]
    by (simp add: step_ansi_def)
qed

lemma step_ok:
  assumes "cursor_ok s"
  shows "\<exists>s'. step s t = Inr s' \<and> cursor_ok s'"
proof (cases t)
  case (AnsiCode a)
  with assms show ?thesis by (simp add: step_def step_ansi_ok)
next
  case (ControlChar c)
  with assms show ?thesis
    by (auto simp: step_def Let_def row_at_def set_row_def cursor_ok_def split: option.splits)
next
  case (TextPart x)
  with assms show ?thesis
    by (auto simp: step_def Let_def row_at_ok foldl_write_char_snd cursor_ok_def)
qed (use assms in \<open>simp_all add: step_def\<close>)

lemma interp_ok: "cursor_ok s \<Longrightarrow> \<exists>s'. interp s ts = Inr s' \<and> cursor_ok s'"
proof (induction ts arbitrary: s)
  case Nil
  then show ?case by simp
next
  case (Cons t ts)
  from step_ok [OF Cons.prems] obtain s1 where "step s t = Inr s1" "cursor_ok s1" by blast
  with Cons.IH [of s1] show ?case by simp
qed

lemma init_ok: "cursor_ok init"
  by (simp add: cursor_ok_def init_def)

lemma run_ok: "\<exists>s. run raw = Inr s \<and> cursor_ok s"
  unfolding run_def by (rule interp_ok [OF init_ok])



section \<open>Runs of a rendered line\<close>

lemma flushSpan_runs:
  assumes "runs_ok st"
  shows "distinct_adj (map spanAnsi (lineHtml (flushSpan a st)))"
    and "lineHtml (flushSpan a st) = [] \<or>
         spanAnsi (last (lineHtml (flushSpan a st))) = currentSpanAnsi st"
    and "currentSpanAnsi (flushSpan a st) = currentSpanAnsi st"
  using assms
  by (auto simp: runs_ok_def flushSpan_def Let_def distinct_adj_append_iff last_map)

lemma add_cell_runs:
  assumes "runs_ok st"
  shows "runs_ok (add_cell a st cl)"
proof (cases "style cl = currentSpanAnsi st")
  case True
  with assms show ?thesis by (auto simp: add_cell_def runs_ok_def)
next
  case False
  with flushSpan_runs [OF assms, of a] assms show ?thesis
    by (auto simp: add_cell_def runs_ok_def Let_def)
qed

lemma foldl_add_cell_runs: "runs_ok st \<Longrightarrow> runs_ok (foldl (add_cell a) st line)"
  by (induction line arbitrary: st) (simp_all add: add_cell_runs)

lemma render_line_maximal: "distinct_adj (map spanAnsi (fst (render_line a u line)))"
proof -
  have "runs_ok \<lparr>lineHtml = [], currentSpanAnsi = [], currentSpanText = [], ansiUp = u\<rparr>"
    by (simp add: runs_ok_def)
  then have "runs_ok (foldl (add_cell a)
      \<lparr>lineHtml = [], currentSpanAnsi = [], currentSpanText = [], ansiUp = u\<rparr> line)"
    by (rule foldl_add_cell_runs)
  then show ?thesis
    by (simp add: render_line_def Let_def flushSpan_runs(1))
qed

lemma render_lines_maximal:
  "list_all (\<lambda>spans. distinct_adj (map spanAnsi spans)) (render_lines a u rows)"
  by (induction rows arbitrary: u) (simp_all add: Let_def render_line_maximal)

lemma length_render_lines: "length (render_lines a u rows) = length rows"
  by (induction rows arbitrary: u) (simp_all add: Let_def)

text \<open>
  Claim C5. For every input the loop ends without an exception, and in every
  row of the rendered grid no two adjacent runs carry the same style string.
\<close>

theorem runs_maximal:
  "\<exists>s. run raw = Inr s \<and>
       list_all (\<lambda>spans. distinct_adj (map spanAnsi spans)) (render_lines a u (linesBuffer s))"
  using run_ok [of raw] by (auto simp: render_lines_maximal)

section \<open>The current style\<close>

lemma erase_in_line_style: "erase_in_line s mode = Inr s' \<Longrightarrow> currentStyle s' = currentStyle s"
  by (auto simp: erase_in_line_def Let_def split: if_splits option.splits sum.splits)

lemma erase_in_display_style:
  "erase_in_display s mode = Inr s' \<Longrightarrow> currentStyle s' = currentStyle s"
  by (auto simp: erase_in_display_def split: if_splits option.splits)

lemma delete_chars_style: "delete_chars s count = Inr s' \<Longrightarrow> currentStyle s' = currentStyle s"
  by (auto simp: delete_chars_def split: option.splits)

lemma move_cursor_style: "move_cursor s a count = Inr s' \<Longrightarrow> currentStyle s' = currentStyle s"
  by (auto simp: move_cursor_def Let_def split: if_splits)

lemma step_ansi_style:
  assumes "step_ansi s c = Inr s'"
  shows "currentStyle s' =
    (if endsWith c (CHR ''m'') then (if c = reset then [] else currentStyle s @ c)
     else currentStyle s)"
proof (cases "endsWith c (CHR ''m'')")
  case True
  with assms show ?thesis by (auto simp: step_ansi_def split: if_splits)
next
  case False
  with assms show ?thesis
    by (auto simp: step_ansi_def split: if_splits
        dest: erase_in_line_style erase_in_display_style delete_chars_style move_cursor_style)
qed

lemma step_style:
  assumes "step s t = Inr s'"
  shows "spec_style_after (currentStyle s') ts = spec_style_after (currentStyle s) (t # ts)"
proof (cases t)
  case (AnsiCode c)
  with assms show ?thesis by (simp add: step_def step_ansi_style)
next
  case (ControlChar c)
  with assms show ?thesis
    by (auto simp: step_def Let_def split: if_splits option.splits sum.splits)
next
  case (TextPart x)
  with assms show ?thesis
    by (auto simp: step_def Let_def split: if_splits option.splits)
qed (use assms in \<open>auto simp: step_def\<close>)

lemma interp_style:
  "interp s ts = Inr s' \<Longrightarrow> currentStyle s' = spec_style_after (currentStyle s) ts"
proof (induction ts arbitrary: s)
  case Nil
  then show ?case by simp
next
  case (Cons t ts)
  then obtain s1 where s1: "step s t = Inr s1" and r: "interp s1 ts = Inr s'"
    by (auto split: sum.splits)
  from Cons.IH [OF r] step_style [OF s1] show ?case by simp
qed

text \<open>
  Claim C1, as the code has it. After any prefix of the token stream the
  current style is what the SGR tokens of that prefix alone make it: the reset
  sequence \<open>ESC[0m\<close> empties it, any other sequence ending in \<open>m\<close> is appended,
  and no other token (a line break, an erase of the whole screen) and no end of
  input changes it.
\<close>

theorem style_follows_sgr_tokens:
  "\<exists>s. interp init (take n (tokenize raw)) = Inr s \<and>
       currentStyle s = spec_style_after [] (take n (tokenize raw))"
proof -
  from interp_ok [OF init_ok, of "take n (tokenize raw)"]
  obtain s where s: "interp init (take n (tokenize raw)) = Inr s" by blast
  from interp_style [OF s] have "currentStyle s = spec_style_after [] (take n (tokenize raw))"
    by (simp add: init_def)
  with s show ?thesis by blast
qed

text \<open>
  Claim C1 as stated fails: after \<open>ESC[31m ESC[2J\<close> the grid is a single empty
  row and the cursor is at the origin, but the current style is still
  \<open>ESC[31m\<close>.
\<close>

theorem clear_screen_keeps_style:
  "run ([ESC] @ ''[31m'' @ [ESC] @ ''[2J'') =
     Inr \<lparr>linesBuffer = [[]], cursorX = 0, cursorY = 0, currentStyle = [ESC] @ ''[31m''\<rparr>"
  by code_simp

section \<open>OSC sequences\<close>

lemma osc_tail_body:
  assumes "LF \<notin> set body" "CR \<notin> set body" "BEL \<notin> set body"
    and "\<And>u v. body \<noteq> u @ [ESC, CHR 0x5C] @ v"
    and "t = [BEL] \<or> t = [ESC, CHR 0x5C]"
  shows "osc_tail (body @ t @ rest) = Some (body @ t, rest)"
  using assms
proof (induction body)
  case Nil
  then show ?case by auto
next
  case (Cons c cs)
  have no_pair: "cs \<noteq> u @ [ESC, CHR 0x5C] @ v" for u v
    using Cons.prems(4) [of "c # u" v] by simp
  from Cons.prems have ih: "osc_tail (cs @ t @ rest) = Some (cs @ t, rest)"
    by (intro Cons.IH no_pair) auto
  have not_st: "\<not> (c = ESC \<and> cs @ t @ rest \<noteq> [] \<and> hd (cs @ t @ rest) = CHR 0x5C)"
  proof (cases cs)
    case Nil
    with Cons.prems(5) show ?thesis by auto
  next
    case (Cons d ds)
    with Cons.prems(4) [of "[]" ds] show ?thesis by auto
  qed
  from Cons.prems have "c \<noteq> BEL" "is_dot c"
    by (auto simp: is_dot_def)
  with not_st ih show ?case by auto
qed

text \<open>
  Claim C8, as the code has it. Where the tokenizer looks for its next token,
  an escape, \<open>]\<close>, a body without line feed, carriage return, bell or
  \<open>ESC\\<close>, and a terminator (bell or \<open>ESC\\<close>) are one OSC token, and the
  token leaves grid, cursor and style as they are.
\<close>

theorem osc_token_discarded:
  assumes "LF \<notin> set body" "CR \<notin> set body" "BEL \<notin> set body"
    and "\<And>u v. body \<noteq> u @ [ESC, CHR 0x5C] @ v"
    and "t = [BEL] \<or> t = [ESC, CHR 0x5C]"
  shows "tokenize ([ESC, CHR '']''] @ body @ t @ rest) =
           OscSequence ([ESC, CHR '']''] @ body @ t) # tokenize rest \<and>
         step s (OscSequence ([ESC, CHR '']''] @ body @ t)) = Inr s \<and>
         interp s (tokenize ([ESC, CHR '']''] @ body @ t @ rest)) = interp s (tokenize rest)"
proof -
  have tl: "osc_tail (body @ t @ rest) = Some (body @ t, rest)"
    using assms by (rule osc_tail_body)
  have "match_here (ESC # CHR '']'' # body @ t @ rest) =
      Some (OscSequence (ESC # CHR '']'' # body @ t), rest)"
    by (simp add: match_here_def match_csi_def match_osc_def tl)
  then have tok: "tokenize ([ESC, CHR '']''] @ body @ t @ rest) =
      OscSequence ([ESC, CHR '']''] @ body @ t) # tokenize rest"
    by simp
  have st: "step s (OscSequence ([ESC, CHR '']''] @ body @ t)) = Inr s"
    by (simp add: step_def)
  from tok st show ?thesis by simp
qed

theorem osc_token_discarded_witness:
  "tokenize ([ESC, CHR '']''] @ ''0;title'' @ [BEL] @ ''ok'') =
     [OscSequence ([ESC, CHR '']''] @ ''0;title'' @ [BEL]), TextPart ''ok''] \<and>
   step init (OscSequence ([ESC, CHR '']''] @ ''0;title'' @ [BEL])) = Inr init \<and>
   interp init (tokenize ([ESC, CHR '']''] @ ''0;title'' @ [BEL] @ ''ok'')) =
     Inr \<lparr>linesBuffer = [[\<lparr>char = CHR ''o'', style = []\<rparr>, \<lparr>char = CHR ''k'', style = []\<rparr>]],
          cursorX = 2, cursorY = 0, currentStyle = []\<rparr>"
proof -
  have a: "LF \<notin> set ''0;title''" "CR \<notin> set ''0;title''" "BEL \<notin> set ''0;title''"
    by simp_all
  have b: "''0;title'' \<noteq> u @ [ESC, CHR 0x5C] @ v" for u v
  proof
    assume "''0;title'' = u @ [ESC, CHR 0x5C] @ v"
    then have "ESC \<in> set ''0;title''"
      by (metis append_Cons in_set_conv_decomp)
    then show False by simp
  qed
  have c: "[BEL] = [BEL] \<or> [BEL] = [ESC, CHR 0x5C]" by simp
  have r: "tokenize ''ok'' = [TextPart ''ok'']" by code_simp
  have i: "interp init [TextPart ''ok''] =
     Inr \<lparr>linesBuffer = [[\<lparr>char = CHR ''o'', style = []\<rparr>, \<lparr>char = CHR ''k'', style = []\<rparr>]],
          cursorX = 2, cursorY = 0, currentStyle = []\<rparr>" by code_simp
  from osc_token_discarded [OF a b c, of "''ok''" init] r i show ?thesis
    by simp
qed

text \<open>
  Claim C8 as stated fails: with a line feed in the body the escape is stepped
  over and the rest is text and a line break, which fill two rows.
\<close>

theorem osc_with_line_break_is_text:
  "tokenize ([ESC] @ '']a'' @ [LF] @ ''b'' @ [BEL]) =
     [TextPart '']a'', ControlChar LF, TextPart (''b'' @ [BEL])] \<and>
   run ([ESC] @ '']a'' @ [LF] @ ''b'' @ [BEL]) =
     Inr \<lparr>linesBuffer = [[\<lparr>char = CHR '']'', style = []\<rparr>, \<lparr>char = CHR ''a'', style = []\<rparr>],
                          [\<lparr>char = CHR ''b'', style = []\<rparr>, \<lparr>char = BEL, style = []\<rparr>]],
          cursorX = 2, cursorY = 1, currentStyle = []\<rparr>"
  by code_simp


section \<open>What the reconstructor emits\<close>

lemma processNode_runs: "processNode (runs_node runs) = concat (map spec_run_text runs)"
proof -
  have "processNode (Element tg cls da it (map run_node rs)) = concat (map spec_run_text rs)"
    for tg cls da it rs
    by (induction rs) (auto simp: run_node_def spec_run_text_def split: option.splits)
  then show ?thesis by (simp add: runs_node_def)
qed

lemma matches_runs_node: "matches_line (runs_node runs)"
  by (simp add: runs_node_def)

text \<open>
  Claim C2, as the code has it. For every sequence of structured lines the
  reconstructed text is the lines joined by line feeds, a line is its runs in
  order, a run with a non-empty tag is the tag, the text and one trailing reset,
  and a run without a tag is exactly its text.
\<close>

theorem reconstruct_runs:
  "reconstructAnsi (Element ''DIV'' False None it (map runs_node ls)) =
     join [LF] (map (\<lambda>runs. concat (map spec_run_text runs)) ls)"
proof (cases ls)
  case Nil
  then show ?thesis by (simp add: reconstructAnsi_def)
next
  case (Cons l ls')
  have f: "filter matches_line (map runs_node ls) = map runs_node ls"
    by (simp add: filter_map o_def matches_runs_node)
  have "filter matches_line (descendants (Element ''DIV'' False None it (map runs_node ls))) \<noteq> []"
    using Cons by (simp add: matches_runs_node)
  then show ?thesis
    by (simp add: reconstructAnsi_def Let_def f o_def processNode_runs)
qed

text \<open>
  Claim C2 as stated fails: for the single run \<open>B\<close> tagged \<open>ESC[31m\<close> the
  reconstructor emits the tag, \<open>B\<close> and a reset, with no reset before the tag.
\<close>

theorem no_leading_reset:
  "reconstructAnsi (Element ''DIV'' False None ''B''
      [Element ''DIV'' True None ''B''
         [Element ''SPAN'' False (Some ([CHR 0x5C] @ ''x1b[31m'')) ''B'' [TextNode ''B'']]]) =
     [ESC] @ ''[31mB'' @ [ESC] @ ''[0m'' \<and>
   reconstructAnsi (Element ''DIV'' False None ''B''
      [Element ''DIV'' True None ''B''
         [Element ''SPAN'' False (Some ([CHR 0x5C] @ ''x1b[31m'')) ''B'' [TextNode ''B'']]]) \<noteq>
     [ESC] @ ''[0m'' @ [ESC] @ ''[31mB'' @ [ESC] @ ''[0m''"
  by code_simp

section \<open>Lines of the rendered output\<close>

lemma grid_nonempty: "cursor_ok s \<Longrightarrow> linesBuffer s \<noteq> []"
  by (auto simp: cursor_ok_def)

text \<open>
  Claim C10. For every input the loop ends with a grid of at least one row, the
  renderer produces one line per row and the markup is the lines' markup in
  order; the empty input leaves the single empty row, which is rendered as one
  line holding the \<open><br>\<close> placeholder.
\<close>

theorem one_line_per_row:
  "\<exists>s. run raw = Inr s \<and> linesBuffer s \<noteq> [] \<and>
       length (render_lines a u (linesBuffer s)) = length (linesBuffer s) \<and>
       getAnsiHtml a u raw = Inr (concat (map line_html (render_lines a u (linesBuffer s)))) \<and>
       run [] = Inr init \<and> linesBuffer init = [[]] \<and>
       render_lines a u (linesBuffer init) = [[]] \<and>
       getAnsiHtml a u [] = Inr (''<div class='' @ [CHR 0x22] @ ''line'' @ [CHR 0x22] @ ''><br></div>'')"
proof -
  from run_ok [of raw] obtain s where s: "run raw = Inr s" "cursor_ok s" by blast
  have e: "run [] = Inr init" by (simp add: run_def)
  have i: "linesBuffer init = [[]]" by (simp add: init_def)
  have r: "render_lines a u [[]] = [[]]"
    by (simp add: render_line_def flushSpan_def Let_def)
  have h: "getAnsiHtml a u [] = Inr (''<div class='' @ [CHR 0x22] @ ''line'' @ [CHR 0x22] @ ''><br></div>'')"
    by (simp add: getAnsiHtml_def e i r line_html_def del: render_lines.simps)
  from s e i r h show ?thesis
    by (simp add: grid_nonempty length_render_lines getAnsiHtml_def del: render_lines.simps)
qed

section \<open>Cells of the grid\<close>

























section \<open>The runs of a line are its cells\<close>



lemma flushSpan_ansi: "currentSpanAnsi (flushSpan a st) = currentSpanAnsi st"
  by (simp add: flushSpan_def Let_def)










section \<open>Reconstructing the rendered tree\<close>











section \<open>Interpreting reconstructed text\<close>

















section \<open>Round trip of an unedited rendering\<close>












section \<open>Rendering again\<close>

lemma render_all_nth:
  "i < length documents \<Longrightarrow> render_all a u0 documents ! i = getAnsiHtml a u0 (documents ! i)"
proof (induction documents arbitrary: i)
  case Nil
  then show ?case by simp
next
  case (Cons d ds)
  then show ?case by (cases i) simp_all
qed

lemma same_grid_same_markup:
  assumes "grid_of x = grid_of y"
  shows "getAnsiHtml a u0 x = getAnsiHtml a u0 y"
proof -
  from run_ok [of x] obtain s where s: "run x = Inr s" by blast
  from run_ok [of y] obtain s' where s': "run y = Inr s'" by blast
  from assms s s' have "linesBuffer s = linesBuffer s'"
    by (simp add: grid_of_def)
  with s s' show ?thesis by (simp add: getAnsiHtml_def)
qed

text \<open>
  Claim C9. Whatever was rendered before, two renderings of the same raw text
  yield the same output; more generally the output depends on the raw text only
  through the grid it is interpreted to.
\<close>

theorem rendering_repeatable:
  assumes "i < length documents" "j < length documents"
  shows "(documents ! i = documents ! j \<longrightarrow>
            render_all a u0 documents ! i = render_all a u0 documents ! j) \<and>
         (grid_of (documents ! i) = grid_of (documents ! j) \<longrightarrow>
            render_all a u0 documents ! i = render_all a u0 documents ! j)"
  using assms by (auto simp: render_all_nth dest: same_grid_same_markup)

theorem rendering_repeatable_witness:
  "[''A'', ''A'' @ [CR], ''A''] ! 0 = [''A'', ''A'' @ [CR], ''A''] ! 2 \<and>
   render_all (\<lambda>u x. ([], u)) () [''A'', ''A'' @ [CR], ''A''] ! 0 =
     render_all (\<lambda>u x. ([], u)) () [''A'', ''A'' @ [CR], ''A''] ! 2 \<and>
   [''A'', ''A'' @ [CR], ''A''] ! 0 \<noteq> [''A'', ''A'' @ [CR], ''A''] ! 1 \<and>
   grid_of ([''A'', ''A'' @ [CR], ''A''] ! 0) = grid_of ([''A'', ''A'' @ [CR], ''A''] ! 1) \<and>
   render_all (\<lambda>u x. ([], u)) () [''A'', ''A'' @ [CR], ''A''] ! 0 =
     render_all (\<lambda>u x. ([], u)) () [''A'', ''A'' @ [CR], ''A''] ! 1 \<and>
   render_all (\<lambda>u x. ([], u)) () [''A'', ''A'' @ [CR], ''A''] ! 0 =
     Inr (''<div class='' @ [CHR 0x22] @ ''line'' @ [CHR 0x22] @ ''><span>A</span></div>'')"
proof -
  let ?docs = "[''A'', ''A'' @ [CR], ''A'']"
  have l: "(0::nat) < length ?docs" "(1::nat) < length ?docs" "(2::nat) < length ?docs"
    by simp_all
  have t: "?docs ! 0 = ?docs ! 2" "?docs ! 0 \<noteq> ?docs ! 1"
    by simp_all
  have g: "grid_of (?docs ! 0) = grid_of (?docs ! 1)"
    by code_simp
  have v: "render_all (\<lambda>u x. ([], u)) () ?docs ! 0 =
     Inr (''<div class='' @ [CHR 0x22] @ ''line'' @ [CHR 0x22] @ ''><span>A</span></div>'')"
    by code_simp
  from rendering_repeatable [OF l(1) l(3), of "\<lambda>u x. ([], u)" "()"] t(1)
  have a: "render_all (\<lambda>u x. ([], u)) () ?docs ! 0 = render_all (\<lambda>u x. ([], u)) () ?docs ! 2"
    by blast
  from rendering_repeatable [OF l(1) l(2), of "\<lambda>u x. ([], u)" "()"] g
  have b: "render_all (\<lambda>u x. ([], u)) () ?docs ! 0 = render_all (\<lambda>u x. ([], u)) () ?docs ! 1"
    by blast
  from t g v a b show ?thesis by blast
qed

section \<open>Worked example of the specification\<close>

text \<open>
  Claim C4. Parsing \<open>A ESC[31m B ESC[0m C\<close> ends without an exception, and row 0
  of the grid is exactly the three cells \<open>A\<close> with the empty style, \<open>B\<close> with
  the style \<open>ESC[31m\<close> and \<open>C\<close> with the empty style.
\<close>

theorem example_red_B_row0:
  "(case run (''A'' @ [ESC] @ ''[31mB'' @ [ESC] @ ''[0mC'') of
      Inl e \<Rightarrow> None
    | Inr s \<Rightarrow> Some (linesBuffer s ! 0)) =
   Some [\<lparr>char = CHR ''A'', style = []\<rparr>,
         \<lparr>char = CHR ''B'', style = [ESC] @ ''[31m''\<rparr>,
         \<lparr>char = CHR ''C'', style = []\<rparr>]"
  by code_simp



end
